theory Spec2Isabelle
  imports Main
begin

section \<open>The persistent semantic index of Sage (\<open>vector_store.py\<close>)\<close>

text \<open>
  This theory embeds the class \<open>VectorStore\<close> of \<open>vector_store.py\<close>: the FAISS index, the
  two Python lists \<open>metadata\<close> and \<open>documents\<close> that are kept beside it, and the three
  files the store writes under its persistence directory.

  Two libraries the class calls are not part of the repository and are taken as
  parameters: the sentence embedder (\<open>encode\<close>), and of FAISS the in-place
  \<open>normalize_L2\<close>, the inner product that \<open>IndexFlatIP\<close> scores with and the search of
  the index for one query. A vector has an abstract type \<open>'v\<close>, a score an abstract
  linearly ordered type \<open>'s\<close> with \<open>1\<close> and \<open>-\<close> (for the program: 32-bit floats without
  NaN). The embedder is taken to be a function of the single text, so a batch is
  embedded text by text.
\<close>

subsection \<open>Python values, dictionaries and indexing\<close>

datatype pyval = PNone | PStr string | PInt int

text \<open>A metadata dictionary, in insertion order.\<close>

type_synonym meta = "(string \<times> pyval) list"

datatype py_error = IndexError | FileNotFoundError | AssertionError

text \<open>\<open>m.get(k, d)\<close>; \<open>m.get(k)\<close> is \<open>m.get(k, None)\<close>.\<close>

definition dict_get :: "meta \<Rightarrow> string \<Rightarrow> pyval \<Rightarrow> pyval" where
  "dict_get m k d = (case map_of m k of None \<Rightarrow> d | Some v \<Rightarrow> v)"

text \<open>\<open>m[k] = v\<close>: an existing key keeps its place, a new key goes last.\<close>

fun dict_set :: "meta \<Rightarrow> string \<Rightarrow> pyval \<Rightarrow> meta" where
  "dict_set [] k v = [(k, v)]"
| "dict_set ((k', v') # m) k v = (if k' = k then (k, v) # m else (k', v') # dict_set m k v)"

text \<open>\<open>xs[i]\<close>: a negative index counts from the end, an index out of range raises.\<close>

definition getitem :: "'a list \<Rightarrow> int \<Rightarrow> py_error + 'a" where
  "getitem xs i =
     (if 0 \<le> i \<and> i < int (length xs) then Inr (xs ! nat i)
      else if i < 0 \<and> - int (length xs) \<le> i then Inr (xs ! nat (int (length xs) + i))
      else Inl IndexError)"

text \<open>A list comprehension \<open>[f(i) for i in xs]\<close> whose body may raise: the first error wins.\<close>

fun comprehension :: "('a \<Rightarrow> py_error + 'b) \<Rightarrow> 'a list \<Rightarrow> py_error + 'b list" where
  "comprehension f [] = Inr []"
| "comprehension f (x # xs) =
     (case f x of
        Inl e \<Rightarrow> Inl e
      | Inr y \<Rightarrow> (case comprehension f xs of Inl e \<Rightarrow> Inl e | Inr ys \<Rightarrow> Inr (y # ys)))"

subsection \<open>The external collaborators\<close>

text \<open>
  \<open>index_search vs q k\<close> is \<open>IndexFlatIP.search\<close> on an index that holds the vectors
  \<open>vs\<close>, for the single query \<open>q\<close>: the rows \<open>scores[0]\<close> and \<open>indices[0]\<close> zipped. A hit is
  a pair of a score and a label, a signed integer where \<open>-1\<close> stands for "no result".
  The call can fail, as any call of the library can.
\<close>

record ('v, 's) collaborators =
  encode :: "string \<Rightarrow> 'v"
  normalize_L2 :: "'v \<Rightarrow> 'v"
  inner_product :: "'v \<Rightarrow> 'v \<Rightarrow> 's"
  index_search :: "'v list \<Rightarrow> 'v \<Rightarrow> int \<Rightarrow> py_error + ('s \<times> int) list"

text \<open>
  Lines 56 to 59 and 115 to 116: \<open>encode(texts)\<close> followed by \<open>faiss.normalize_L2\<close>.
\<close>

definition embed_texts :: "('v, 's) collaborators \<Rightarrow> string list \<Rightarrow> 'v list" where
  "embed_texts E texts = map (normalize_L2 E) (map (encode E) texts)"

text \<open>
  The search of a flat inner-product index as the FAISS library runs it for one query.
  Its Python wrapper asserts \<open>k > 0\<close>. The \<open>k\<close> best hits are selected with a heap that
  compares the score first and the label second, and are returned from the highest
  down: of two vectors with the same score the one at the higher position comes first,
  and is the one kept when only one of them fits. For \<open>k\<close> above the size of the index
  the library fills the rows up with the label \<open>-1\<close>; \<open>search\<close> never asks for more than
  \<open>ntotal\<close> hits, and the filling is left out here.
  The theorems on \<open>search\<close> do not depend on this function: they hold for every
  \<open>index_search\<close> that meets \<open>index_contract\<close> below. It serves as the instance of the
  examples.
\<close>

fun insert_hit :: "('s::linorder \<times> int) \<Rightarrow> ('s \<times> int) list \<Rightarrow> ('s \<times> int) list" where
  "insert_hit h [] = [h]"
| "insert_hit h (x # xs) =
     (if fst x < fst h \<or> (fst x = fst h \<and> snd x < snd h) then h # x # xs
      else x # insert_hit h xs)"

fun rank_hits :: "('s::linorder \<times> int) list \<Rightarrow> ('s \<times> int) list" where
  "rank_hits [] = []"
| "rank_hits (h # hs) = insert_hit h (rank_hits hs)"

definition flat_ip_search ::
  "('v \<Rightarrow> 'v \<Rightarrow> 's::linorder) \<Rightarrow> 'v list \<Rightarrow> 'v \<Rightarrow> int \<Rightarrow> py_error + ('s \<times> int) list" where
  "flat_ip_search ip vs q k =
     (if k \<le> 0 then Inl AssertionError
      else Inr (take (nat k)
                  (rank_hits (zip (map (\<lambda>v. ip v q) vs) (map int [0..<length vs])))))"

subsection \<open>The store and its files\<close>

text \<open>
  The three files of a collection; \<open>None\<close> is a file that does not exist. A file holds
  the value that was written to it: \<open>pickle\<close> and \<open>faiss.write_index\<close> are taken to read
  back what they wrote.
\<close>

record 'v disk =
  index_file :: "'v list option"
  metadata_file :: "meta list option"
  documents_file :: "string list option"

text \<open>
  The attributes of a \<open>VectorStore\<close> that change, and the files at its three paths.
  \<open>index\<close> is the content of the \<open>IndexFlatIP\<close>, in the order of insertion.
\<close>

record 'v store =
  index :: "'v list"
  metadata :: "meta list"
  documents :: "string list"
  disk :: "'v disk"

definition ntotal :: "'v list \<Rightarrow> nat" where
  "ntotal ix = length ix"

definition load_or_create_index :: "'v store \<Rightarrow> py_error + 'v store" where
  "load_or_create_index s =
     (case index_file (disk s) of
        Some ix \<Rightarrow>
          (case metadata_file (disk s) of
             None \<Rightarrow> Inl FileNotFoundError
           | Some md \<Rightarrow>
               (case documents_file (disk s) of
                  None \<Rightarrow> Inl FileNotFoundError
                | Some ds \<Rightarrow> Inr (s\<lparr>index := ix, metadata := md, documents := ds\<rparr>)))
      | None \<Rightarrow> Inr (s\<lparr>index := [], metadata := [], documents := []\<rparr>))"

definition save_index :: "'v store \<Rightarrow> 'v store" where
  "save_index s =
     s\<lparr>disk := \<lparr>index_file = Some (index s),
                metadata_file = Some (metadata s),
                documents_file = Some (documents s)\<rparr>\<rparr>"

text \<open>
  The loop of lines 65 to 68. \<open>uuid4 i\<close> is the identifier drawn for the \<open>i\<close>-th chunk of
  the call. The loop writes the \<open>id\<close> into the caller's dictionary and appends that
  dictionary; the model appends its value after the write. The two agree when every
  chunk carries a dictionary of its own, as \<open>chunk_text\<close> builds them. Where two chunks
  share one dictionary object, both entries end with the identifier drawn last; the
  model gives each its own, and no statement below speaks of identifiers.
\<close>

fun store_chunks :: "(nat \<Rightarrow> string) \<Rightarrow> nat \<Rightarrow> (string \<times> meta) list \<Rightarrow> 'v store \<Rightarrow> 'v store" where
  "store_chunks uuid4 i [] s = s"
| "store_chunks uuid4 i ((text, m) # chunks) s =
     store_chunks uuid4 (Suc i) chunks
       (s\<lparr>metadata := metadata s @ [dict_set m ''id'' (PStr (uuid4 i))],
          documents := documents s @ [text]\<rparr>)"

definition add_documents ::
  "('v, 's) collaborators \<Rightarrow> (nat \<Rightarrow> string) \<Rightarrow> 'v store \<Rightarrow> (string \<times> meta) list \<Rightarrow> 'v store" where
  "add_documents E uuid4 s chunks =
     (let texts = map fst chunks;
          embeddings = embed_texts E texts;
          s1 = s\<lparr>index := index s @ embeddings\<rparr>;
          s2 = store_chunks uuid4 0 chunks s1
      in save_index s2)"

text \<open>One entry of the list that \<open>search\<close> returns.\<close>

record 's result =
  r_text :: string
  r_metadata :: meta
  r_distance :: 's

text \<open>The loop of lines 87 to 93 over the hits of the index.\<close>

fun format_results ::
  "'v store \<Rightarrow> ('s::{linorder,one,minus} \<times> int) list \<Rightarrow> py_error + 's result list" where
  "format_results s [] = Inr []"
| "format_results s ((score, idx) # hits) =
     (if idx \<noteq> - 1 then
        (case getitem (documents s) idx of
           Inl e \<Rightarrow> Inl e
         | Inr t \<Rightarrow>
             (case getitem (metadata s) idx of
                Inl e \<Rightarrow> Inl e
              | Inr m \<Rightarrow>
                  (case format_results s hits of
                     Inl e \<Rightarrow> Inl e
                   | Inr rs \<Rightarrow>
                       Inr (\<lparr>r_text = t, r_metadata = m, r_distance = 1 - score\<rparr> # rs))))
      else format_results s hits)"

definition search ::
  "('v, 's::{linorder,one,minus}) collaborators \<Rightarrow> 'v store \<Rightarrow> string \<Rightarrow> int
     \<Rightarrow> py_error + 's result list" where
  "search E s query top_k =
     (if ntotal (index s) = 0 then Inr []
      else
        let query_embedding = normalize_L2 E (encode E query)
        in (case index_search E (index s) query_embedding
                   (min top_k (int (ntotal (index s)))) of
              Inl e \<Rightarrow> Inl e
            | Inr hits \<Rightarrow> format_results s hits))"

definition file_exists :: "'v store \<Rightarrow> string \<Rightarrow> bool" where
  "file_exists s filename =
     list_ex (\<lambda>m. dict_get m ''filename'' PNone = PStr filename) (metadata s)"

text \<open>
  \<open>delete_file\<close> returns Python's \<open>None\<close> at both of its exits; the model returns it with
  the store. The positions it reads \<open>metadata\<close> at come from \<open>range(len(self.metadata))\<close>
  and are in range; \<open>self.documents[i]\<close> raises when \<open>documents\<close> is the shorter list, and
  then nothing has been assigned yet.
\<close>

definition delete_file ::
  "('v, 's) collaborators \<Rightarrow> 'v store \<Rightarrow> string \<Rightarrow> py_error + (pyval \<times> 'v store)" where
  "delete_file E s filename =
     (let indices_to_delete =
            filter (\<lambda>i. dict_get (metadata s ! i) ''filename'' PNone = PStr filename)
              [0..<length (metadata s)]
      in
        if indices_to_delete = [] then Inr (PNone, s)
        else
          let remaining_indices =
                filter (\<lambda>i. i \<notin> set indices_to_delete) [0..<length (metadata s)]
          in
            if remaining_indices \<noteq> [] then
              (case comprehension (\<lambda>i. getitem (documents s) (int i)) remaining_indices of
                 Inl e \<Rightarrow> Inl e
               | Inr remaining_texts \<Rightarrow>
                   let embeddings = embed_texts E remaining_texts;
                       new_index = [] @ embeddings;
                       s1 = s\<lparr>index := new_index\<rparr>;
                       s2 = s1\<lparr>metadata := map (\<lambda>i. metadata s1 ! i) remaining_indices\<rparr>
                   in
                     (case comprehension (\<lambda>i. getitem (documents s2) (int i))
                             remaining_indices of
                        Inl e \<Rightarrow> Inl e
                      | Inr ds \<Rightarrow> Inr (PNone, save_index (s2\<lparr>documents := ds\<rparr>))))
            else
              Inr (PNone, save_index (s\<lparr>index := [], metadata := [], documents := []\<rparr>)))"

text \<open>\<open>os.remove(path)\<close> under \<open>if os.path.exists(path)\<close>.\<close>

definition remove_if_exists :: "'a option \<Rightarrow> 'a option" where
  "remove_if_exists f = (case f of None \<Rightarrow> None | Some _ \<Rightarrow> None)"

definition reset_database :: "'v store \<Rightarrow> 'v store" where
  "reset_database s =
     (let s1 = s\<lparr>index := [], metadata := [], documents := []\<rparr>
      in s1\<lparr>disk := \<lparr>index_file = remove_if_exists (index_file (disk s1)),
                     metadata_file = remove_if_exists (metadata_file (disk s1)),
                     documents_file = remove_if_exists (documents_file (disk s1))\<rparr>\<rparr>)"

text \<open>
  The dictionary that \<open>get_stats\<close> returns. \<open>files\<close> is \<open>list(unique_files)\<close>, a Python
  set in an order the language leaves open: it is kept as a set.
\<close>

record stats =
  total_chunks :: nat
  unique_files :: nat
  files :: "pyval set"

definition get_stats :: "'v store \<Rightarrow> stats" where
  "get_stats s =
     (let unique_files0 = set (map (\<lambda>m. dict_get m ''filename'' (PStr '''')) (metadata s));
          unique_files1 = unique_files0 - {PStr ''''}
      in \<lparr>total_chunks = length (documents s),
          unique_files = card unique_files1,
          files = unique_files1\<rparr>)"

subsection \<open>The alignment invariant\<close>

text \<open>
  The catalog and the index have the same length, and the vector at position \<open>i\<close> is the
  normalised embedding of the text at position \<open>i\<close>.
\<close>

definition aligned :: "('v, 's) collaborators \<Rightarrow> 'v store \<Rightarrow> bool" where
  "aligned E s \<longleftrightarrow>
     length (metadata s) = length (documents s) \<and>
     length (documents s) = ntotal (index s) \<and>
     index s = embed_texts E (documents s)"

text \<open>A store object built on a directory that holds none of the three files.\<close>

definition empty_disk :: "'v disk" where
  "empty_disk = \<lparr>index_file = None, metadata_file = None, documents_file = None\<rparr>"

subsection \<open>Notions the properties are stated with\<close>

text \<open>The test \<open>meta.get('filename') == filename\<close> of lines 99 and 104.\<close>

definition belongs_to :: "string \<Rightarrow> meta \<Rightarrow> bool" where
  "belongs_to f m \<longleftrightarrow> dict_get m ''filename'' PNone = PStr f"

text \<open>The texts at the positions whose metadata does not name the file.\<close>

definition retained_texts :: "'v store \<Rightarrow> string \<Rightarrow> string list" where
  "retained_texts s f =
     map (\<lambda>i. documents s ! i)
       (filter (\<lambda>i. \<not> belongs_to f (metadata s ! i)) [0..<length (metadata s)])"

text \<open>The number of catalog entries whose metadata names the file.\<close>

definition chunks_of_file :: "'v store \<Rightarrow> string \<Rightarrow> nat" where
  "chunks_of_file s f = length (filter (belongs_to f) (metadata s))"

text \<open>
  The filename values of the entries that have one, the empty string left out.
\<close>

definition named_files :: "'v store \<Rightarrow> pyval set" where
  "named_files s =
     set (List.map_filter (\<lambda>m. map_of m ''filename'') (metadata s)) - {PStr ''''}"

text \<open>
  The order the heap of \<open>flat_ip_search\<close> puts the hits in: the higher score first, and
  of two equal scores the higher position first.
\<close>

definition ranked_before :: "('s::linorder \<times> int) \<Rightarrow> ('s \<times> int) \<Rightarrow> bool" where
  "ranked_before a b \<longleftrightarrow> fst b < fst a \<or> (fst a = fst b \<and> snd b < snd a)"

text \<open>
  The inner product of the stored vector at position \<open>i\<close> with the normalised embedding
  of the query.
\<close>

definition score :: "('v, 's) collaborators \<Rightarrow> 'v store \<Rightarrow> string \<Rightarrow> nat \<Rightarrow> 's" where
  "score E s query i = inner_product E (index s ! i) (normalize_L2 E (encode E query))"

text \<open>
  What \<open>search\<close> relies on of the library's index search when it asks for \<open>k\<close> hits,
  \<open>0 < k \<le> size\<close>: the call returns \<open>k\<close> hits at distinct positions of the index, each
  with the inner product of its vector and the query as its score, in the order of
  non-increasing score, and no position left out scores higher than one that is
  returned. Nothing is said about the order of equal scores.
\<close>

definition index_contract :: "('v, 's::linorder) collaborators \<Rightarrow> bool" where
  "index_contract E \<longleftrightarrow>
     (\<forall>vs q k. 0 < k \<and> k \<le> int (length vs) \<longrightarrow>
        (\<exists>ps. index_search E vs q k
                 = Inr (map (\<lambda>i. (inner_product E (vs ! i) q, int i)) ps) \<and>
              length ps = nat k \<and> distinct ps \<and>
              set ps \<subseteq> {..<length vs} \<and>
              sorted_wrt (\<lambda>i j. inner_product E (vs ! j) q \<le> inner_product E (vs ! i) q) ps \<and>
              (\<forall>j < length vs. j \<notin> set ps \<longrightarrow>
                 (\<forall>i \<in> set ps. inner_product E (vs ! j) q \<le> inner_product E (vs ! i) q))))"

text \<open>
  A small instance to evaluate the operations on: a text is embedded as its length, a
  score is a product of integers, and the index is searched by \<open>flat_ip_search\<close>. Two
  chunks of \<open>a.txt\<close> surround one of \<open>b.txt\<close>.
\<close>

definition demo_collaborators :: "(int, int) collaborators" where
  "demo_collaborators =
     \<lparr>encode = (\<lambda>t. int (length t)), normalize_L2 = (\<lambda>v. v), inner_product = (\<lambda>u v. u * v),
      index_search = flat_ip_search (\<lambda>u v. u * v)\<rparr>"

definition demo_store :: "int store" where
  "demo_store =
     save_index
       \<lparr>index = [2, 1, 2],
        metadata = [[(''filename'', PStr ''a.txt'')], [(''filename'', PStr ''b.txt'')],
                    [(''filename'', PStr ''a.txt'')]],
        documents = [''aa'', ''b'', ''cc''],
        disk = empty_disk\<rparr>"

definition demo_after_delete :: "int store" where
  "demo_after_delete =
     save_index
       \<lparr>index = [1],
        metadata = [[(''filename'', PStr ''b.txt'')]],
        documents = [''b''],
        disk = empty_disk\<rparr>"

definition demo_hit :: "int result" where
  "demo_hit = \<lparr>r_text = ''b'', r_metadata = [(''filename'', PStr ''b.txt'')], r_distance = - 1\<rparr>"

definition demo_uuid4 :: "nat \<Rightarrow> string" where
  "demo_uuid4 i = replicate (Suc i) CHR ''u''"

definition demo_chunks :: "(string \<times> meta) list" where
  "demo_chunks = [(''dddd'', [(''filename'', PStr ''d.txt'')])]"

subsection \<open>Indexing and comprehensions\<close>

lemma getitem_nat: "i < length xs \<Longrightarrow> getitem xs (int i) = Inr (xs ! i)"
  by (simp add: getitem_def)

lemma getitem_in_set: "getitem xs i = Inr x \<Longrightarrow> x \<in> set xs"
  by (auto simp: getitem_def split: if_splits)

lemma comprehension_total:
  "(\<And>x. x \<in> set xs \<Longrightarrow> f x = Inr (g x)) \<Longrightarrow> comprehension f xs = Inr (map g xs)"
  by (induction xs) auto

lemma comprehension_length:
  "comprehension f xs = Inr ys \<Longrightarrow> length ys = length xs"
  by (induction xs arbitrary: ys) (auto split: sum.splits)

lemma nth_filter_upt: "map (\<lambda>i. xs ! i) (filter (\<lambda>i. Q (xs ! i)) [0..<length xs]) = filter Q xs"
proof (induction xs rule: rev_induct)
  case Nil
  then show ?case by simp
next
  case (snoc x xs)
  have f: "filter (\<lambda>i. Q ((xs @ [x]) ! i)) [0..<length xs] = filter (\<lambda>i. Q (xs ! i)) [0..<length xs]"
    by (rule filter_cong) (auto simp: nth_append)
  have "map (\<lambda>i. (xs @ [x]) ! i) (filter (\<lambda>i. Q (xs ! i)) [0..<length xs])
        = map (\<lambda>i. xs ! i) (filter (\<lambda>i. Q (xs ! i)) [0..<length xs])"
    by (rule map_cong) (auto simp: nth_append)
  with snoc f show ?case by (simp add: nth_append)
qed

subsection \<open>Adding chunks\<close>

lemma store_chunks_index [simp]: "index (store_chunks u i cs s) = index s"
  by (induction u i cs s rule: store_chunks.induct) auto

lemma store_chunks_disk [simp]: "disk (store_chunks u i cs s) = disk s"
  by (induction u i cs s rule: store_chunks.induct) auto

lemma store_chunks_documents [simp]: "documents (store_chunks u i cs s) = documents s @ map fst cs"
  by (induction u i cs s rule: store_chunks.induct) auto

lemma store_chunks_length_metadata [simp]:
  "length (metadata (store_chunks u i cs s)) = length (metadata s) + length cs"
  by (induction u i cs s rule: store_chunks.induct) auto

subsection \<open>Deleting a file\<close>

lemma file_exists_iff: "file_exists s f \<longleftrightarrow> (\<exists>m \<in> set (metadata s). belongs_to f m)"
  by (simp add: file_exists_def belongs_to_def list_ex_iff)

lemma to_delete_empty:
  "filter (\<lambda>i. belongs_to f (ms ! i)) [0..<length ms] = [] \<longleftrightarrow> (\<forall>m \<in> set ms. \<not> belongs_to f m)"
  by (auto simp: filter_empty_conv all_set_conv_all_nth)

lemma remaining_eq:
  "filter (\<lambda>i. i \<notin> set (filter (\<lambda>i. belongs_to f (ms ! i)) [0..<length ms])) [0..<length ms]
   = filter (\<lambda>i. \<not> belongs_to f (ms ! i)) [0..<length ms]"
  by (rule filter_cong) auto

lemma remaining_metadata:
  "map (\<lambda>i. ms ! i) (filter (\<lambda>i. \<not> belongs_to f (ms ! i)) [0..<length ms])
   = filter (\<lambda>m. \<not> belongs_to f m) ms"
  by (rule nth_filter_upt)

lemma remaining_empty:
  "filter (\<lambda>i. \<not> belongs_to f (ms ! i)) [0..<length ms] = [] \<longleftrightarrow>
   filter (\<lambda>m. \<not> belongs_to f m) ms = []"
  by (auto simp: filter_empty_conv all_set_conv_all_nth)

lemma delete_file_cases:
  "delete_file E s f =
     (if \<not> file_exists s f then Inr (PNone, s)
      else if filter (\<lambda>m. \<not> belongs_to f m) (metadata s) = [] then
        Inr (PNone, save_index (s\<lparr>index := [], metadata := [], documents := []\<rparr>))
      else
        (case comprehension (\<lambda>i. getitem (documents s) (int i))
                (filter (\<lambda>i. \<not> belongs_to f (metadata s ! i)) [0..<length (metadata s)]) of
           Inl e \<Rightarrow> Inl e
         | Inr ts \<Rightarrow>
             Inr (PNone, save_index (s\<lparr>index := embed_texts E ts,
                    metadata := filter (\<lambda>m. \<not> belongs_to f m) (metadata s),
                    documents := ts\<rparr>))))"
proof -
  let ?D = "filter (\<lambda>i. dict_get (metadata s ! i) ''filename'' PNone = PStr f) [0..<length (metadata s)]"
  let ?R = "filter (\<lambda>i. \<not> belongs_to f (metadata s ! i)) [0..<length (metadata s)]"
  have D: "?D = [] \<longleftrightarrow> \<not> file_exists s f"
    using to_delete_empty [of f "metadata s"] by (simp add: file_exists_iff belongs_to_def)
  have R: "filter (\<lambda>i. i \<notin> set ?D) [0..<length (metadata s)] = ?R"
    using remaining_eq [of f "metadata s"] by (simp add: belongs_to_def)
  show ?thesis
    unfolding delete_file_def Let_def R
    by (simp add: D remaining_empty remaining_metadata split: sum.splits)
qed

lemma zip_remaining:
  assumes "length ds = length ms"
  shows "zip (map (\<lambda>i. ds ! i) (filter (\<lambda>i. Q (ms ! i)) [0..<length ms]))
             (filter Q ms)
         = filter (\<lambda>(t, m). Q m) (zip ds ms)"
proof -
  let ?R = "filter (\<lambda>i. Q (ms ! i)) [0..<length ms]"
  have "filter (\<lambda>(t, m). Q m) (zip ds ms)
        = map (\<lambda>i. zip ds ms ! i)
            (filter (\<lambda>i. (\<lambda>(t, m). Q m) (zip ds ms ! i)) [0..<length (zip ds ms)])"
    by (rule nth_filter_upt [symmetric])
  also have "filter (\<lambda>i. (\<lambda>(t, m). Q m) (zip ds ms ! i)) [0..<length (zip ds ms)] = ?R"
    using assms by (intro filter_cong) auto
  also have "map (\<lambda>i. zip ds ms ! i) ?R = map (\<lambda>i. (ds ! i, ms ! i)) ?R"
    using assms by (intro map_cong) auto
  also have "\<dots> = zip (map (\<lambda>i. ds ! i) ?R) (map (\<lambda>i. ms ! i) ?R)"
    by (simp add: zip_map_map zip_same_conv_map o_def)
  also have "map (\<lambda>i. ms ! i) ?R = filter Q ms"
    by (rule nth_filter_upt)
  finally show ?thesis by simp
qed

lemma remaining_texts_total:
  assumes "length ds = length ms"
  shows "comprehension (\<lambda>i. getitem ds (int i)) (filter Q [0..<length ms])
         = Inr (map (\<lambda>i. ds ! i) (filter Q [0..<length ms]))"
  using assms by (intro comprehension_total) (simp add: getitem_nat)

lemma delete_file_same_length:
  assumes "length (metadata s) = length (documents s)"
  shows "delete_file E s f =
     Inr (PNone,
       if \<not> file_exists s f then s
       else save_index (s\<lparr>index := embed_texts E (retained_texts s f),
              metadata := filter (\<lambda>m. \<not> belongs_to f m) (metadata s),
              documents := retained_texts s f\<rparr>))"
proof -
  have c: "comprehension (\<lambda>i. getitem (documents s) (int i))
             (filter (\<lambda>i. \<not> belongs_to f (metadata s ! i)) [0..<length (metadata s)])
           = Inr (retained_texts s f)"
    unfolding retained_texts_def using assms by (intro remaining_texts_total) simp
  have e: "filter (\<lambda>m. \<not> belongs_to f m) (metadata s) = [] \<Longrightarrow> retained_texts s f = []"
    by (simp add: retained_texts_def remaining_empty)
  show ?thesis
  proof (cases "file_exists s f")
    case False
    then show ?thesis by (simp add: delete_file_cases)
  next
    case ex: True
    show ?thesis
    proof (cases "filter (\<lambda>m. \<not> belongs_to f m) (metadata s) = []")
      case True
      with ex e show ?thesis by (simp add: delete_file_cases embed_texts_def)
    next
      case False
      with ex show ?thesis by (simp add: delete_file_cases c)
    qed
  qed
qed

lemma length_retained_texts:
  "length (retained_texts s f) = length (filter (\<lambda>m. \<not> belongs_to f m) (metadata s))"
  unfolding retained_texts_def
  by (simp flip: remaining_metadata [of "metadata s" f])

subsection \<open>The example store\<close>

lemma demo_aligned: "aligned demo_collaborators demo_store"
  by (simp add: aligned_def demo_store_def demo_collaborators_def save_index_def ntotal_def
      embed_texts_def)

lemma demo_delete:
  "delete_file demo_collaborators demo_store ''a.txt'' = Inr (PNone, demo_after_delete)"
  by code_simp

lemma demo_search:
  "search demo_collaborators demo_after_delete ''zz'' 5 = Inr [demo_hit]"
  by code_simp

lemma demo_search_tie:
  "search demo_collaborators demo_store ''zz'' 2 =
    Inr [\<lparr>r_text = ''cc'', r_metadata = [(''filename'', PStr ''a.txt'')], r_distance = - 3\<rparr>,
         \<lparr>r_text = ''aa'', r_metadata = [(''filename'', PStr ''a.txt'')], r_distance = - 3\<rparr>]"
  by code_simp

lemma demo_search_tie_scores:
  "score demo_collaborators demo_store ''zz'' 0 = score demo_collaborators demo_store ''zz'' 2"
  by code_simp

lemma demo_search_zero:
  "search demo_collaborators demo_store ''zz'' 0 = Inl AssertionError"
  by code_simp

lemma demo_count: "chunks_of_file demo_store ''a.txt'' = 2"
  by code_simp

lemma demo_absent: "\<not> file_exists demo_store ''c.txt''"
  by code_simp

subsection \<open>The alignment invariant is kept\<close>

lemma add_documents_index:
  "index (add_documents E uuid4 s chunks) = index s @ embed_texts E (map fst chunks)"
  by (simp add: add_documents_def save_index_def Let_def)

lemma add_documents_documents:
  "documents (add_documents E uuid4 s chunks) = documents s @ map fst chunks"
  by (simp add: add_documents_def save_index_def Let_def)

lemma add_documents_length_metadata:
  "length (metadata (add_documents E uuid4 s chunks)) = length (metadata s) + length chunks"
  by (simp add: add_documents_def save_index_def Let_def)

lemma embed_append: "embed_texts E (xs @ ys) = embed_texts E xs @ embed_texts E ys"
  by (simp add: embed_texts_def)

lemma length_embed: "length (embed_texts E xs) = length xs"
  by (simp add: embed_texts_def)

lemma add_documents_aligned:
  assumes "aligned E s"
  shows "aligned E (add_documents E uuid4 s chunks)"
proof -
  from assms have a: "length (metadata s) = length (documents s)"
    and b: "index s = embed_texts E (documents s)"
    by (simp_all add: aligned_def)
  show ?thesis
    unfolding aligned_def ntotal_def add_documents_index add_documents_documents
      add_documents_length_metadata embed_append
    by (simp add: a b length_embed)
qed

lemma delete_file_aligned:
  assumes "aligned E s"
  shows "\<exists>s'. delete_file E s f = Inr (PNone, s') \<and> aligned E s'"
proof (cases "file_exists s f")
  case False
  from assms have l: "length (metadata s) = length (documents s)"
    by (simp add: aligned_def)
  from False have "delete_file E s f = Inr (PNone, s)"
    by (simp add: delete_file_same_length [OF l])
  with assms show ?thesis by simp
next
  case True
  from assms have l: "length (metadata s) = length (documents s)"
    by (simp add: aligned_def)
  let ?s' = "save_index (s\<lparr>index := embed_texts E (retained_texts s f),
              metadata := filter (\<lambda>m. \<not> belongs_to f m) (metadata s),
              documents := retained_texts s f\<rparr>)"
  from True have "delete_file E s f = Inr (PNone, ?s')"
    by (simp add: delete_file_same_length [OF l])
  moreover have "aligned E ?s'"
    by (simp add: aligned_def save_index_def ntotal_def length_retained_texts embed_texts_def)
  ultimately show ?thesis by blast
qed

lemma reset_database_aligned: "aligned E (reset_database s)"
  by (simp add: aligned_def reset_database_def ntotal_def embed_texts_def)

lemma fresh_store_aligned:
  "disk s = empty_disk \<Longrightarrow> \<exists>s'. load_or_create_index s = Inr s' \<and> aligned E s'"
  by (simp add: load_or_create_index_def empty_disk_def aligned_def ntotal_def embed_texts_def)

lemma reloaded_store_aligned:
  "aligned E s \<Longrightarrow>
   \<exists>t'. load_or_create_index (t\<lparr>disk := disk (save_index s)\<rparr>) = Inr t' \<and> aligned E t'"
  by (simp add: load_or_create_index_def save_index_def aligned_def ntotal_def)

text \<open>
  Claim C1. A store whose catalog and index are aligned (\<open>metadata\<close>, \<open>documents\<close> and
  the index have the same length, and the vector at every position is the embedding of
  the text at that position) is aligned again after \<open>add_documents\<close>, after
  \<open>delete_file\<close>, which then does not raise, and after \<open>reset_database\<close>. The other
  three public operations, \<open>search\<close>, \<open>file_exists\<close> and \<open>get_stats\<close>, assign no
  attribute: they are functions of the store and leave it as it is. A store built on an
  empty directory is aligned (\<open>fresh_store_aligned\<close>), and so is a store reloaded from
  what an aligned store saved (\<open>reloaded_store_aligned\<close>).
\<close>

theorem alignment_invariant:
  assumes "aligned E s"
  shows "aligned E (add_documents E uuid4 s chunks) \<and>
         (\<exists>s'. delete_file E s f = Inr (PNone, s') \<and> aligned E s') \<and>
         aligned E (reset_database s)"
proof (intro conjI)
  show "aligned E (add_documents E uuid4 s chunks)"
    using assms by (rule add_documents_aligned)
  show "\<exists>s'. delete_file E s f = Inr (PNone, s') \<and> aligned E s'"
    using assms by (rule delete_file_aligned)
  show "aligned E (reset_database s)"
    by (rule reset_database_aligned)
qed

theorem alignment_invariant_witness:
  "aligned demo_collaborators demo_store \<and>
   aligned demo_collaborators
     (add_documents demo_collaborators demo_uuid4 demo_store demo_chunks) \<and>
   (\<exists>s'. delete_file demo_collaborators demo_store ''a.txt'' = Inr (PNone, s') \<and>
         aligned demo_collaborators s') \<and>
   aligned demo_collaborators (reset_database demo_store)"
  using demo_aligned
    alignment_invariant [of demo_collaborators demo_store demo_uuid4 demo_chunks "''a.txt''"]
  by blast

subsection \<open>What a deletion leaves\<close>

lemma delete_file_absent:
  "\<not> file_exists s f \<Longrightarrow> delete_file E s f = Inr (PNone, s)"
  by (simp add: delete_file_cases)

lemma delete_file_result:
  assumes "delete_file E s f = Inr (r, s')"
  shows "r = PNone \<and> metadata s' = filter (\<lambda>m. \<not> belongs_to f m) (metadata s)"
proof (cases "file_exists s f")
  case False
  then have "\<forall>m \<in> set (metadata s). \<not> belongs_to f m"
    by (simp add: file_exists_iff)
  then have "filter (\<lambda>m. \<not> belongs_to f m) (metadata s) = metadata s"
    by (simp add: filter_id_conv)
  with False assms show ?thesis
    by (simp add: delete_file_cases)
next
  case True
  with assms show ?thesis
    by (auto simp: delete_file_cases save_index_def split: if_splits sum.splits)
qed

lemma format_results_metadata:
  "format_results s hits = Inr rs \<Longrightarrow> x \<in> set rs \<Longrightarrow> r_metadata x \<in> set (metadata s)"
proof (induction s hits arbitrary: rs rule: format_results.induct)
  case (1 s)
  then show ?case by simp
next
  case (2 s score idx hits)
  show ?case
  proof (cases "idx = - 1")
    case True
    with 2 show ?thesis by simp
  next
    case False
    with "2.prems" obtain t m rs' where
      t: "getitem (documents s) idx = Inr t" and m: "getitem (metadata s) idx = Inr m"
      and r: "format_results s hits = Inr rs'"
      and rs: "rs = \<lparr>r_text = t, r_metadata = m, r_distance = 1 - score\<rparr> # rs'"
      by (auto split: sum.splits)
    from "2.prems"(2) rs consider "x = \<lparr>r_text = t, r_metadata = m, r_distance = 1 - score\<rparr>" | "x \<in> set rs'"
      by auto
    then show ?thesis
    proof cases
      case 1
      with m show ?thesis by (simp add: getitem_in_set)
    next
      case 2
      with "2.IH"(1) [OF False t m r] show ?thesis .
    qed
  qed
qed

lemma search_metadata:
  "search E s q k = Inr rs \<Longrightarrow> x \<in> set rs \<Longrightarrow> r_metadata x \<in> set (metadata s)"
  by (auto simp: search_def Let_def split: if_splits sum.splits dest: format_results_metadata)

text \<open>
  Claim C3. When \<open>delete_file(f)\<close> has completed, \<open>file_exists(f)\<close> is false, and no
  result of any \<open>search\<close> on the store has a metadata whose \<open>filename\<close> is \<open>f\<close>.
\<close>

theorem delete_completeness:
  assumes "delete_file E s f = Inr (r, s')"
  shows "\<not> file_exists s' f \<and>
         (\<forall>q k rs x. search E' s' q k = Inr rs \<longrightarrow> x \<in> set rs \<longrightarrow>
            dict_get (r_metadata x) ''filename'' PNone \<noteq> PStr f)"
proof -
  from delete_file_result [OF assms]
  have m: "metadata s' = filter (\<lambda>m. \<not> belongs_to f m) (metadata s)" by simp
  then have none: "\<forall>m \<in> set (metadata s'). \<not> belongs_to f m" by simp
  then have "\<not> file_exists s' f" by (simp add: file_exists_iff)
  moreover have "dict_get (r_metadata x) ''filename'' PNone \<noteq> PStr f"
    if "search E' s' q k = Inr rs" "x \<in> set rs" for q k rs x
    using search_metadata [OF that] none by (auto simp: belongs_to_def)
  ultimately show ?thesis by blast
qed

theorem delete_completeness_witness:
  "delete_file demo_collaborators demo_store ''a.txt'' = Inr (PNone, demo_after_delete) \<and>
   \<not> file_exists demo_after_delete ''a.txt'' \<and>
   search demo_collaborators demo_after_delete ''zz'' 5 = Inr [demo_hit] \<and>
   demo_hit \<in> set [demo_hit] \<and>
   dict_get (r_metadata demo_hit) ''filename'' PNone \<noteq> PStr ''a.txt''"
proof -
  note c = delete_completeness [OF demo_delete]
  from c have "\<not> file_exists demo_after_delete ''a.txt''" by blast
  moreover have "demo_hit \<in> set [demo_hit]" by simp
  moreover from c demo_search this
  have "dict_get (r_metadata demo_hit) ''filename'' PNone \<noteq> PStr ''a.txt''" by blast
  ultimately show ?thesis using demo_delete demo_search by blast
qed

text \<open>
  Claim C8, as the program has it. \<open>delete_file\<close> returns \<open>None\<close>, not a count. When it
  has completed, the catalog is shorter by the number of entries whose metadata
  \<open>filename\<close> was \<open>f\<close> at the call.
\<close>

theorem delete_file_returns_none:
  assumes "delete_file E s f = Inr (r, s')"
  shows "r = PNone \<and> length (metadata s') + chunks_of_file s f = length (metadata s)"
proof -
  from delete_file_result [OF assms]
  have "r = PNone" and m: "metadata s' = filter (\<lambda>m. \<not> belongs_to f m) (metadata s)"
    by simp_all
  moreover have "length (filter (\<lambda>m. \<not> belongs_to f m) (metadata s)) + chunks_of_file s f
                 = length (metadata s)"
    unfolding chunks_of_file_def
    using sum_length_filter_compl [of "belongs_to f" "metadata s"] by simp
  ultimately show ?thesis by simp
qed

theorem delete_file_returns_none_witness:
  "delete_file demo_collaborators demo_store ''a.txt'' = Inr (PNone, demo_after_delete) \<and>
   length (metadata demo_after_delete) + chunks_of_file demo_store ''a.txt''
     = length (metadata demo_store)"
  using demo_delete delete_file_returns_none [OF demo_delete] by blast

text \<open>
  On the example store two entries name \<open>a.txt\<close>, and \<open>delete_file\<close> returns \<open>None\<close>,
  which is not the integer 2.
\<close>

theorem delete_file_count_counterexample:
  "delete_file demo_collaborators demo_store ''a.txt'' = Inr (PNone, demo_after_delete) \<and>
   chunks_of_file demo_store ''a.txt'' = 2 \<and>
   PNone \<noteq> PInt 2"
  using demo_delete demo_count by simp

text \<open>
  Claim C10. When no catalog entry has \<open>f\<close> as its \<open>filename\<close>, \<open>delete_file(f)\<close> returns
  with the store as it was: index, metadata, documents and the three files.
\<close>

theorem delete_absent_file_noop:
  assumes "\<not> file_exists s f"
  shows "delete_file E s f = Inr (PNone, s)"
  using assms by (rule delete_file_absent)

theorem delete_absent_file_noop_witness:
  "\<not> file_exists demo_store ''c.txt'' \<and>
   delete_file demo_collaborators demo_store ''c.txt'' = Inr (PNone, demo_store)"
  using demo_absent delete_absent_file_noop [OF demo_absent, of demo_collaborators]
  by blast

text \<open>
  Claim C4. On an aligned store \<open>delete_file(f)\<close> completes, and the pairs of text and
  metadata it leaves are the pairs of the store whose metadata \<open>filename\<close> is not \<open>f\<close>, each
  unchanged and in their former order. The lists are the new positions \<open>0..m-1\<close>, and
  the store is aligned: the rebuilt index holds, at each position, the embedding of the
  text at that position.
\<close>

theorem delete_preserves_others:
  assumes "aligned E s"
  shows "\<exists>s'. delete_file E s f = Inr (PNone, s') \<and>
           zip (documents s') (metadata s')
             = filter (\<lambda>(t, m). dict_get m ''filename'' PNone \<noteq> PStr f)
                 (zip (documents s) (metadata s)) \<and>
           aligned E s'"
proof -
  from assms have l: "length (metadata s) = length (documents s)"
    by (simp add: aligned_def)
  from delete_file_aligned [OF assms] obtain s' where
    d: "delete_file E s f = Inr (PNone, s')" and a: "aligned E s'" by blast
  have z: "zip (retained_texts s f) (filter (\<lambda>m. \<not> belongs_to f m) (metadata s))
           = filter (\<lambda>(t, m). \<not> belongs_to f m) (zip (documents s) (metadata s))"
    unfolding retained_texts_def using l by (intro zip_remaining) simp
  have "zip (documents s') (metadata s')
        = filter (\<lambda>(t, m). \<not> belongs_to f m) (zip (documents s) (metadata s))"
  proof (cases "file_exists s f")
    case False
    then have "\<forall>m \<in> set (metadata s). \<not> belongs_to f m"
      by (simp add: file_exists_iff)
    then have "filter (\<lambda>(t, m). \<not> belongs_to f m) (zip (documents s) (metadata s))
               = zip (documents s) (metadata s)"
      by (auto simp: filter_id_conv dest: set_zip_rightD)
    moreover from False d have "s' = s" by (simp add: delete_file_absent)
    ultimately show ?thesis by simp
  next
    case True
    with d have "s' = save_index (s\<lparr>index := embed_texts E (retained_texts s f),
              metadata := filter (\<lambda>m. \<not> belongs_to f m) (metadata s),
              documents := retained_texts s f\<rparr>)"
      by (simp add: delete_file_same_length [OF l])
    then show ?thesis by (simp add: save_index_def z)
  qed
  with d a show ?thesis by (auto simp: belongs_to_def)
qed

theorem delete_preserves_others_witness:
  "aligned demo_collaborators demo_store \<and>
   (\<exists>s'. delete_file demo_collaborators demo_store ''a.txt'' = Inr (PNone, s') \<and>
         zip (documents s') (metadata s')
           = filter (\<lambda>(t, m). dict_get m ''filename'' PNone \<noteq> PStr ''a.txt'')
               (zip (documents demo_store) (metadata demo_store)) \<and>
         aligned demo_collaborators s')"
  using demo_aligned delete_preserves_others [OF demo_aligned, of "''a.txt''"]
  by blast

subsection \<open>Statistics, reset and reload\<close>

lemma map_filter_values: "set (List.map_filter g xs) = {y. \<exists>x \<in> set xs. g x = Some y}"
proof (induction xs)
  case Nil
  then show ?case by (simp add: map_filter_simps)
next
  case (Cons x xs)
  then show ?case by (cases "g x") (auto simp: map_filter_simps)
qed

text \<open>
  Claim C9. \<open>get_stats\<close> reports the length of \<open>documents\<close> as \<open>total_chunks\<close>; \<open>files\<close>
  holds the distinct \<open>filename\<close> values of the metadata entries that have one, without
  the empty string, so an entry with an empty or a missing filename adds nothing; and
  \<open>unique_files\<close> is the number of these values.
\<close>

theorem get_stats_counts:
  "total_chunks (get_stats s) = length (documents s) \<and>
   files (get_stats s) = named_files s \<and>
   unique_files (get_stats s) = card (named_files s)"
proof -
  have "set (map (\<lambda>m. dict_get m ''filename'' (PStr '''')) (metadata s)) - {PStr ''''}
        = named_files s"
    unfolding named_files_def
    by (force simp: dict_get_def map_filter_values image_iff split: option.splits)
  then show ?thesis by (simp add: get_stats_def Let_def)
qed

lemma remove_if_exists_None [simp]: "remove_if_exists f = None"
  by (cases f) (simp_all add: remove_if_exists_def)

text \<open>
  Claim C6. After \<open>reset_database\<close> the index, \<open>metadata\<close> and \<open>documents\<close> are empty,
  \<open>get_stats\<close> reports no chunk and no file, and none of the three files exists.
\<close>

theorem reset_database_clears:
  "index (reset_database s) = [] \<and> metadata (reset_database s) = [] \<and>
   documents (reset_database s) = [] \<and>
   total_chunks (get_stats (reset_database s)) = 0 \<and>
   unique_files (get_stats (reset_database s)) = 0 \<and>
   index_file (disk (reset_database s)) = None \<and>
   metadata_file (disk (reset_database s)) = None \<and>
   documents_file (disk (reset_database s)) = None"
  by (simp add: reset_database_def Let_def get_stats_def)

text \<open>
  Claim C7. On a store whose index holds no vector, \<open>search\<close> returns the empty list for
  every query and every \<open>top_k\<close>, and does not raise.
\<close>

theorem search_empty_store:
  assumes "ntotal (index s) = 0"
  shows "search E s query top_k = Inr []"
  using assms by (simp add: search_def)

theorem search_empty_store_witness:
  "ntotal (index (reset_database demo_store)) = 0 \<and>
   search demo_collaborators (reset_database demo_store) ''zz'' 5 = Inr []"
proof -
  have h: "ntotal (index (reset_database demo_store)) = 0"
    by (simp add: reset_database_def ntotal_def Let_def)
  from h search_empty_store [OF h, of demo_collaborators "''zz''" 5] show ?thesis
    by blast
qed

lemma format_results_cong:
  "documents a = documents b \<Longrightarrow> metadata a = metadata b \<Longrightarrow>
   format_results a hits = format_results b hits"
  by (induction a hits rule: format_results.induct) (simp_all split: sum.splits)

lemma search_cong:
  "index a = index b \<Longrightarrow> documents a = documents b \<Longrightarrow> metadata a = metadata b \<Longrightarrow>
   search E a q k = search E b q k"
  by (simp add: search_def Let_def format_results_cong [of a b] split: sum.splits)

text \<open>
  Claim C5. A store object of any content, built on the files that \<open>_save_index\<close> wrote
  for a store \<open>s\<close>, loads without error the index, metadata and documents of \<open>s\<close>, and
  \<open>search\<close> on it returns, for every query and \<open>top_k\<close>, what it returns on \<open>s\<close>.
\<close>

theorem reload_roundtrip:
  "\<exists>t'. load_or_create_index (t\<lparr>disk := disk (save_index s)\<rparr>) = Inr t' \<and>
     index t' = index s \<and> metadata t' = metadata s \<and> documents t' = documents s \<and>
     search E t' query top_k = search E s query top_k"
proof -
  let ?t' = "t\<lparr>disk := disk (save_index s), index := index s, metadata := metadata s,
               documents := documents s\<rparr>"
  have "load_or_create_index (t\<lparr>disk := disk (save_index s)\<rparr>) = Inr ?t'"
    by (simp add: load_or_create_index_def save_index_def)
  moreover have "search E ?t' query top_k = search E s query top_k"
    by (rule search_cong) simp_all
  ultimately show ?thesis by simp
qed

subsection \<open>Ranking\<close>

lemma ranked_before_trans:
  "ranked_before a b \<Longrightarrow> ranked_before b c \<Longrightarrow> ranked_before a c"
  by (auto simp: ranked_before_def)

lemma ranked_before_total:
  "snd a \<noteq> snd b \<Longrightarrow> \<not> ranked_before a b \<Longrightarrow> ranked_before b a"
  by (auto simp: ranked_before_def)

lemma ranked_before_score: "ranked_before a b \<Longrightarrow> fst b \<le> fst a"
  by (auto simp: ranked_before_def)

lemma set_insert_hit: "set (insert_hit h xs) = insert h (set xs)"
  by (induction xs) auto

lemma length_insert_hit: "length (insert_hit h xs) = Suc (length xs)"
  by (induction xs) auto

lemma insert_hit_Cons:
  "insert_hit h (x # xs) = (if ranked_before h x then h # x # xs else x # insert_hit h xs)"
  by (auto simp: ranked_before_def)

lemma sorted_insert_hit:
  assumes "sorted_wrt ranked_before xs" and "snd h \<notin> snd ` set xs"
  shows "sorted_wrt ranked_before (insert_hit h xs)"
  using assms
proof (induction xs)
  case Nil
  then show ?case by simp
next
  case (Cons x xs)
  show ?case
  proof (cases "ranked_before h x")
    case True
    with Cons.prems have "\<forall>y \<in> set (x # xs). ranked_before h y"
      by (auto intro: ranked_before_trans)
    with True Cons.prems show ?thesis
      by (simp add: insert_hit_Cons del: insert_hit.simps)
  next
    case False
    with Cons.prems have "ranked_before x h"
      by (intro ranked_before_total) auto
    moreover from Cons have "sorted_wrt ranked_before (insert_hit h xs)"
      by simp
    ultimately show ?thesis
      using False Cons.prems
      by (simp add: insert_hit_Cons set_insert_hit del: insert_hit.simps)
  qed
qed

lemma set_rank_hits: "set (rank_hits hs) = set hs"
  by (induction hs) (simp_all add: set_insert_hit)

lemma length_rank_hits: "length (rank_hits hs) = length hs"
  by (induction hs) (simp_all add: length_insert_hit)

lemma sorted_rank_hits:
  "distinct (map snd hs) \<Longrightarrow> sorted_wrt ranked_before (rank_hits hs)"
  by (induction hs) (simp_all add: sorted_insert_hit set_rank_hits)

lemma sorted_wrt_strict_distinct:
  "sorted_wrt R xs \<Longrightarrow> (\<And>x. \<not> R x x) \<Longrightarrow> distinct xs"
  by (induction xs) auto

lemma hits_eq:
  "zip (map (\<lambda>v. ip v q) vs) (map int [0..<length vs])
   = map (\<lambda>i. (ip (vs ! i) q, int i)) [0..<length vs]"
  by (rule nth_equalityI) simp_all

lemma flat_ip_search_hits:
  fixes ip :: "'v \<Rightarrow> 'v \<Rightarrow> 's::linorder"
  assumes "0 < k" and "k \<le> int (length vs)"
  shows "\<exists>ps. flat_ip_search ip vs q k = Inr (map (\<lambda>i. (ip (vs ! i) q, int i)) ps) \<and>
           length ps = nat k \<and> distinct ps \<and>
           set ps \<subseteq> {..<length vs} \<and>
           sorted_wrt (\<lambda>i j. ip (vs ! j) q \<le> ip (vs ! i) q) ps \<and>
           (\<forall>j < length vs. j \<notin> set ps \<longrightarrow> (\<forall>i \<in> set ps. ip (vs ! j) q \<le> ip (vs ! i) q))"
proof -
  define f where "f = (\<lambda>i. (ip (vs ! i) q, int i))"
  define A where "A = rank_hits (map f [0..<length vs])"
  define L where "L = take (nat k) A"
  define D where "D = drop (nat k) A"
  define ps where "ps = map (\<lambda>h. nat (snd h)) L"
  from assms have res: "flat_ip_search ip vs q k = Inr L"
    by (simp add: flat_ip_search_def hits_eq L_def A_def f_def)
  have setA: "set A = f ` {..<length vs}"
    by (auto simp: A_def set_rank_hits)
  have "distinct (map snd (map f [0..<length vs]))"
    by (simp add: f_def o_def distinct_map inj_on_def)
  then have sortedA: "sorted_wrt ranked_before A"
    unfolding A_def by (rule sorted_rank_hits)
  have split: "A = L @ D"
    by (simp add: L_def D_def)
  from sortedA have sortedL: "sorted_wrt ranked_before L"
    unfolding split by (simp add: sorted_wrt_append)
  have same: "f (nat (snd h)) = h \<and> nat (snd h) < length vs" if "h \<in> set L" for h
  proof -
    from that have "h \<in> set A" by (simp add: split)
    then obtain i where "i < length vs" "h = f i" by (auto simp: setA)
    then show ?thesis by (simp add: f_def)
  qed
  have "map (\<lambda>h. f (nat (snd h))) L = L"
    by (rule map_idI) (use same in blast)
  then have hits: "map f ps = L"
    by (simp add: ps_def o_def)
  from assms have "length A = length vs"
    by (simp add: A_def length_rank_hits)
  with assms have len: "length ps = nat k"
    by (simp add: ps_def L_def)
  have inside: "set ps \<subseteq> {..<length vs}"
    using same by (auto simp: ps_def)
  from sortedL have strict: "sorted_wrt (\<lambda>i j. ranked_before (f i) (f j)) ps"
    by (simp add: hits [symmetric] sorted_wrt_map)
  then have dist: "distinct ps"
    by (rule sorted_wrt_strict_distinct) (simp add: ranked_before_def)
  have "sorted_wrt (\<lambda>i j. fst (f j) \<le> fst (f i)) ps"
    by (rule sorted_wrt_mono_rel [OF _ strict]) (rule ranked_before_score)
  then have order: "sorted_wrt (\<lambda>i j. ip (vs ! j) q \<le> ip (vs ! i) q) ps"
    by (simp add: f_def)
  have best: "ip (vs ! j) q \<le> ip (vs ! i) q"
    if j: "j < length vs" "j \<notin> set ps" and i: "i \<in> set ps" for i j
  proof -
    from i have fi: "f i \<in> set L"
      by (simp add: hits [symmetric])
    have "f j \<notin> set L"
    proof
      assume "f j \<in> set L"
      then have "nat (snd (f j)) \<in> set ps"
        unfolding ps_def by simp
      with j show False by (simp add: f_def)
    qed
    moreover from j have "f j \<in> set A"
      by (simp add: setA)
    ultimately have fj: "f j \<in> set D"
      by (simp add: split)
    from sortedA fi fj have "ranked_before (f i) (f j)"
      unfolding split by (simp add: sorted_wrt_append)
    then have "fst (f j) \<le> fst (f i)"
      by (rule ranked_before_score)
    then show ?thesis by (simp add: f_def)
  qed
  from res hits have "flat_ip_search ip vs q k = Inr (map (\<lambda>i. (ip (vs ! i) q, int i)) ps)"
    by (simp add: f_def)
  with len dist inside order best show ?thesis
    by blast
qed

lemma flat_ip_search_contract:
  fixes E :: "('v, 's::linorder) collaborators"
  assumes "index_search E = flat_ip_search (inner_product E)"
  shows "index_contract E"
  unfolding index_contract_def assms
  using flat_ip_search_hits [of _ _ "inner_product E"] by blast

lemma example_index_contract: "index_contract demo_collaborators"
  by (rule flat_ip_search_contract) (simp add: demo_collaborators_def)

lemma format_results_positions:
  fixes sc :: "nat \<Rightarrow> 's::{linorder,one,minus}"
  assumes "\<forall>i \<in> set ps. i < length (documents s) \<and> i < length (metadata s)"
  shows "format_results s (map (\<lambda>i. (sc i, int i)) ps)
         = Inr (map (\<lambda>i. \<lparr>r_text = documents s ! i, r_metadata = metadata s ! i,
                           r_distance = 1 - sc i\<rparr>) ps)"
  using assms by (induction ps) (simp_all add: getitem_nat)

text \<open>
  Claim C2, as the program has it. Let the library's index search meet
  \<open>index_contract\<close>, let the store be non-empty with its two lists as long as the index,
  and let \<open>top_k\<close> be positive. Then \<open>search\<close> returns the chunks at a list \<open>ps\<close> of
  distinct positions of the index: \<open>min(top_k, ntotal)\<close> of them, in the order of
  non-increasing score, no position left out scoring higher than one returned, and
  each result with the distance \<open>1 - score\<close>. The order of two results of equal
  score is the library's.
\<close>

theorem search_ranking:
  fixes E :: "('v, 's::{linorder,one,minus}) collaborators"
  assumes "index_contract E"
    and "length (documents s) = ntotal (index s)"
    and "length (metadata s) = ntotal (index s)"
    and "ntotal (index s) \<noteq> 0"
    and "0 < top_k"
  shows "\<exists>ps. search E s query top_k
                = Inr (map (\<lambda>i. \<lparr>r_text = documents s ! i, r_metadata = metadata s ! i,
                                  r_distance = 1 - score E s query i\<rparr>) ps) \<and>
              int (length ps) = min top_k (int (ntotal (index s))) \<and>
              set ps \<subseteq> {..<ntotal (index s)} \<and>
              distinct ps \<and>
              sorted_wrt (\<lambda>i j. score E s query j \<le> score E s query i) ps \<and>
              (\<forall>j < ntotal (index s). j \<notin> set ps \<longrightarrow>
                 (\<forall>i \<in> set ps. score E s query j \<le> score E s query i))"
proof -
  let ?q = "normalize_L2 E (encode E query)"
  let ?k = "min top_k (int (length (index s)))"
  let ?f = "\<lambda>i. (score E s query i, int i)"
  from assms(4,5) have k: "0 < ?k \<and> ?k \<le> int (length (index s))"
    by (simp add: ntotal_def)
  with assms(1) obtain ps where
    hits: "index_search E (index s) ?q ?k = Inr (map ?f ps)"
    and len: "length ps = nat ?k"
    and dist: "distinct ps"
    and sub: "set ps \<subseteq> {..<length (index s)}"
    and order: "sorted_wrt (\<lambda>i j. score E s query j \<le> score E s query i) ps"
    and best: "\<forall>j < length (index s). j \<notin> set ps \<longrightarrow>
                 (\<forall>i \<in> set ps. score E s query j \<le> score E s query i)"
    unfolding index_contract_def score_def by blast
  from sub assms(2,3) have
    "\<forall>i \<in> set ps. i < length (documents s) \<and> i < length (metadata s)"
    by (auto simp: ntotal_def)
  then have "format_results s (map ?f ps)
             = Inr (map (\<lambda>i. \<lparr>r_text = documents s ! i, r_metadata = metadata s ! i,
                               r_distance = 1 - score E s query i\<rparr>) ps)"
    by (rule format_results_positions)
  with assms(4) hits have res: "search E s query top_k
             = Inr (map (\<lambda>i. \<lparr>r_text = documents s ! i, r_metadata = metadata s ! i,
                               r_distance = 1 - score E s query i\<rparr>) ps)"
    by (simp add: search_def ntotal_def Let_def)
  from len k have n: "int (length ps) = min top_k (int (ntotal (index s)))"
    by (simp add: ntotal_def)
  from res n sub dist order best show ?thesis
    unfolding ntotal_def by blast
qed

theorem search_ranking_witness:
  "index_contract demo_collaborators \<and>
   length (documents demo_store) = ntotal (index demo_store) \<and>
   length (metadata demo_store) = ntotal (index demo_store) \<and>
   ntotal (index demo_store) \<noteq> 0 \<and>
   (0 :: int) < 2 \<and>
   (\<exists>ps. search demo_collaborators demo_store ''zz'' 2
           = Inr (map (\<lambda>i. \<lparr>r_text = documents demo_store ! i,
                             r_metadata = metadata demo_store ! i,
                             r_distance = 1 - score demo_collaborators demo_store ''zz'' i\<rparr>)
                    ps) \<and>
         int (length ps) = min 2 (int (ntotal (index demo_store))) \<and>
         set ps \<subseteq> {..<ntotal (index demo_store)} \<and>
         distinct ps \<and>
         sorted_wrt
           (\<lambda>i j. score demo_collaborators demo_store ''zz'' j
                     \<le> score demo_collaborators demo_store ''zz'' i) ps \<and>
         (\<forall>j < ntotal (index demo_store). j \<notin> set ps \<longrightarrow>
            (\<forall>i \<in> set ps. score demo_collaborators demo_store ''zz'' j
                              \<le> score demo_collaborators demo_store ''zz'' i)))"
proof -
  have h1: "length (documents demo_store) = ntotal (index demo_store)"
    by (simp add: demo_store_def save_index_def ntotal_def)
  have h2: "length (metadata demo_store) = ntotal (index demo_store)"
    by (simp add: demo_store_def save_index_def ntotal_def)
  have h3: "ntotal (index demo_store) \<noteq> 0"
    by (simp add: demo_store_def save_index_def ntotal_def)
  have h4: "(0 :: int) < 2"
    by simp
  note r = search_ranking [OF example_index_contract h1 h2 h3 h4, of "''zz''"]
  from example_index_contract h1 h2 h3 h4 r show ?thesis
    by (intro conjI)
qed

text \<open>
  On the example store the chunks at positions 0 and 2 have the same score. With the
  library's search the chunk at position 2 comes back before the chunk at position 0,
  and for \<open>top_k = 0\<close> the assertion of the library fails where the claim has an empty
  list returned.
\<close>

theorem search_tie_order_counterexample:
  "search demo_collaborators demo_store ''zz'' 2
     = Inr [\<lparr>r_text = ''cc'', r_metadata = [(''filename'', PStr ''a.txt'')], r_distance = - 3\<rparr>,
            \<lparr>r_text = ''aa'', r_metadata = [(''filename'', PStr ''a.txt'')], r_distance = - 3\<rparr>] \<and>
   documents demo_store ! 2 = ''cc'' \<and>
   documents demo_store ! 0 = ''aa'' \<and>
   score demo_collaborators demo_store ''zz'' 0 = score demo_collaborators demo_store ''zz'' 2 \<and>
   search demo_collaborators demo_store ''zz'' 0 = Inl AssertionError"
  by code_simp

end
